theory Spec2Isabelle
  imports Main "HOL-Library.AList" "HOL-Library.Sublist"
begin

section \<open>Data model\<close>

text \<open>
  The three scripts read and write CSV files through Python's \<^verbatim>\<open>csv\<close> module. A row is
  the list of string fields that \<^verbatim>\<open>csv.reader\<close> yields and \<^verbatim>\<open>csv.writer.writerow\<close> takes;
  a file is the list of its rows, in order. The first row of a file is its header where a
  script treats it as one.
\<close>

type_synonym row = "string list"
type_synonym csv_file = "row list"
type_synonym path = string

datatype error = StopIteration | FileNotFoundError | KeyError | AttributeError

text \<open>\<^verbatim>\<open>writer.writerow(row)\<close> on a file opened for writing under key \<open>p\<close>: the row is
  appended to what the file holds.\<close>

definition writerow :: "('p \<rightharpoonup> csv_file) \<Rightarrow> 'p \<Rightarrow> row \<Rightarrow> ('p \<rightharpoonup> csv_file)" where
  "writerow fs p r = fs(p \<mapsto> (case fs p of None \<Rightarrow> [] | Some rs \<Rightarrow> rs) @ [r])"

section \<open>Splitter (split_csv.py)\<close>

text \<open>
  The local variables of \<^verbatim>\<open>split_csv\<close> and the output folder. The file
  \<^verbatim>\<open>part_k.csv\<close> of the output folder is the entry \<open>k\<close> of \<open>folder\<close>; \<open>current_file\<close>
  is the number of the file that \<^verbatim>\<open>current_file\<close> and \<^verbatim>\<open>writer\<close> refer to, \<open>None\<close> while
  both are \<^verbatim>\<open>None\<close>.
\<close>

record split_state =
  file_count :: nat
  current_line_count :: nat
  current_file :: "nat option"
  folder :: "nat \<rightharpoonup> csv_file"

text \<open>One iteration of \<^verbatim>\<open>for row in reader\<close> (lines 23 to 49). Opening a file with mode
  \<^verbatim>\<open>'w'\<close> creates or truncates it; \<^verbatim>\<open>writer.writerow\<close> on \<^verbatim>\<open>None\<close> raises. Closing a file
  does not change the rows it holds, so \<^verbatim>\<open>close\<close> has no counterpart here; neither have the
  \<^verbatim>\<open>print\<close> calls and the creation of the output folder.\<close>

definition open_next :: "row \<Rightarrow> split_state \<Rightarrow> split_state" where
  "open_next headers st =
     (if current_line_count st = 0
      then let fc = file_count st + 1
           in st\<lparr>file_count := fc, current_file := Some fc,
                 folder := writerow ((folder st)(fc \<mapsto> [])) fc headers\<rparr>
      else st)"

definition split_step :: "row \<Rightarrow> int \<Rightarrow> split_state \<Rightarrow> row \<Rightarrow> error + split_state" where
  "split_step headers max_lines st r =
     (let st1 = open_next headers st
      in case current_file st1 of
           None \<Rightarrow> Inl AttributeError
         | Some f \<Rightarrow>
             let st2 = st1\<lparr>folder := writerow (folder st1) f r,
                            current_line_count := current_line_count st1 + 1\<rparr>
             in Inr (if int (current_line_count st2) \<ge> max_lines
                     then st2\<lparr>current_line_count := 0\<rparr> else st2))"

fun split_loop :: "row \<Rightarrow> int \<Rightarrow> row list \<Rightarrow> split_state \<Rightarrow> error + split_state" where
  "split_loop headers max_lines [] st = Inr st"
| "split_loop headers max_lines (r # rs) st =
     (case split_step headers max_lines st r of
        Inl e \<Rightarrow> Inl e
      | Inr st' \<Rightarrow> split_loop headers max_lines rs st')"

text \<open>\<^verbatim>\<open>split_csv(input_file, output_folder, max_lines)\<close>: \<open>source\<close> is the parsed input
  file, \<open>fs0\<close> what the output folder holds before the run. \<^verbatim>\<open>next(reader)\<close> on a file
  with no row raises \<^verbatim>\<open>StopIteration\<close>.\<close>

definition split_csv :: "(nat \<rightharpoonup> csv_file) \<Rightarrow> csv_file \<Rightarrow> int \<Rightarrow> error + split_state" where
  "split_csv fs0 source max_lines =
     (case source of
        [] \<Rightarrow> Inl StopIteration
      | headers # rows \<Rightarrow>
          split_loop headers max_lines rows
            \<lparr>file_count = 0, current_line_count = 0, current_file = None, folder = fs0\<rparr>)"





section \<open>Deduplicator (remove_csv_dup.py)\<close>

text \<open>\<^verbatim>\<open>sep.join(row)\<close> of Python.\<close>

fun join :: "string \<Rightarrow> string list \<Rightarrow> string" where
  "join sep [] = []"
| "join sep [x] = x"
| "join sep (x # y # ys) = x @ sep @ join sep (y # ys)"

type_synonym filesystem = "path \<rightharpoonup> csv_file"

text \<open>One iteration of \<^verbatim>\<open>for row in reader\<close> (lines 13 to 17): the state is the set
  \<^verbatim>\<open>unique_lines\<close> and the file system, in which the temporary file grows.\<close>

definition dedup_step :: "path \<Rightarrow> string set \<times> filesystem \<Rightarrow> row \<Rightarrow> string set \<times> filesystem" where
  "dedup_step temp_file_path st r =
     (let unique_lines = fst st; fs = snd st; line = join '','' r
      in if line \<notin> unique_lines
         then (insert line unique_lines, writerow fs temp_file_path r)
         else (unique_lines, fs))"

fun dedup_loop :: "path \<Rightarrow> row list \<Rightarrow> string set \<times> filesystem \<Rightarrow> string set \<times> filesystem" where
  "dedup_loop temp_file_path [] st = st"
| "dedup_loop temp_file_path (r # rs) st =
     dedup_loop temp_file_path rs (dedup_step temp_file_path st r)"

text \<open>\<^verbatim>\<open>os.replace(src, dst)\<close>: one step that makes \<open>dst\<close> hold what \<open>src\<close> held and removes
  \<open>src\<close>.\<close>

definition os_replace :: "filesystem \<Rightarrow> path \<Rightarrow> path \<Rightarrow> error + filesystem" where
  "os_replace fs src dst =
     (case fs src of
        None \<Rightarrow> Inl FileNotFoundError
      | Some content \<Rightarrow> Inr ((fs(dst \<mapsto> content))(src := None)))"

text \<open>\<^verbatim>\<open>remove_duplicates(file_path)\<close>. The input file is opened for reading first (it must
  exist), then the temporary file is created or truncated. The reader is lazy, but the
  rows it yields are those the input file holds at the start: the loop writes to the
  temporary path only, which differs from \<open>file_path\<close>.\<close>

definition remove_duplicates :: "filesystem \<Rightarrow> path \<Rightarrow> error + filesystem" where
  "remove_duplicates fs file_path =
     (let temp_file_path = file_path @ ''.tmp''
      in case fs file_path of
           None \<Rightarrow> Inl FileNotFoundError
         | Some rows \<Rightarrow>
             let st = dedup_loop temp_file_path rows ({}, fs(temp_file_path \<mapsto> []))
             in os_replace (snd st) temp_file_path file_path)"

text \<open>Every state the loop passes through, the first and the last included, and the
  file-system states of a run up to, and excluding, the final \<^verbatim>\<open>os.replace\<close>: a run that
  stops early stops in one of them.\<close>

fun dedup_trace :: "path \<Rightarrow> row list \<Rightarrow> string set \<times> filesystem \<Rightarrow> (string set \<times> filesystem) list" where
  "dedup_trace temp_file_path [] st = [st]"
| "dedup_trace temp_file_path (r # rs) st =
     st # dedup_trace temp_file_path rs (dedup_step temp_file_path st r)"

definition states_before_replace :: "filesystem \<Rightarrow> path \<Rightarrow> filesystem list" where
  "states_before_replace fs file_path =
     (case fs file_path of
        None \<Rightarrow> [fs]
      | Some rows \<Rightarrow>
          fs # map snd (dedup_trace (file_path @ ''.tmp'') rows
                          ({}, fs(file_path @ ''.tmp'' \<mapsto> []))))"

text \<open>The specification's description of the output, in its own words: the rows that are
  the first occurrence of their canonical text key, in input order.\<close>

definition canonical_key :: "row \<Rightarrow> string" where
  "canonical_key r = join '','' r"

definition is_first_occurrence :: "row list \<Rightarrow> nat \<Rightarrow> bool" where
  "is_first_occurrence rows i =
     (canonical_key (rows ! i) \<notin> canonical_key ` set (take i rows))"

definition first_occurrence_rows :: "row list \<Rightarrow> row list" where
  "first_occurrence_rows rows =
     map (\<lambda>i. rows ! i) (filter (is_first_occurrence rows) [0..<length rows])"

text \<open>The rows the loop writes when it starts with a given set of seen keys.\<close>

fun unseen_rows :: "string set \<Rightarrow> row list \<Rightarrow> row list" where
  "unseen_rows seen [] = []"
| "unseen_rows seen (r # rs) =
     (if join '','' r \<in> seen then unseen_rows seen rs
      else r # unseen_rows (insert (join '','' r) seen) rs)"

section \<open>Searcher (search_files.py)\<close>

text \<open>\<^verbatim>\<open>filename.endswith('.csv')\<close>.\<close>

definition endswith :: "string \<Rightarrow> string \<Rightarrow> bool" where
  "endswith s suf = (length suf \<le> length s \<and> drop (length s - length suf) s = suf)"

text \<open>
  A row of \<^verbatim>\<open>csv.DictReader\<close> is a dict in insertion order. Its keys are the field names
  and, for a row longer than the header, the rest key \<^verbatim>\<open>None\<close>; its values are the
  fields, the rest value \<^verbatim>\<open>None\<close> for a field name the row is too short for, and the list
  of surplus fields under the rest key. Assigning to a key that is present keeps its
  position, as \<^const>\<open>AList.update\<close> does.
\<close>

datatype cell = Str string | NoneVal | Rest "string list"

type_synonym dictrow = "(string option \<times> cell) list"

definition dict_zip :: "row \<Rightarrow> row \<Rightarrow> dictrow" where
  "dict_zip fieldnames r =
     fold (\<lambda>kv. AList.update (Some (fst kv)) (Str (snd kv))) (zip fieldnames r) []"

definition DictReader_next :: "row \<Rightarrow> row \<Rightarrow> dictrow" where
  "DictReader_next fieldnames r =
     (let d = dict_zip fieldnames r; lf = length fieldnames; lr = length r
      in if lf < lr then AList.update None (Rest (drop lf r)) d
         else if lf > lr
           then fold (\<lambda>key. AList.update (Some key) NoneVal) (drop lr fieldnames) d
         else d)"

text \<open>The rows a \<^verbatim>\<open>DictReader\<close> yields for a file: the first row gives the field names,
  blank rows after it are skipped, a file with no row yields nothing.\<close>

definition DictReader :: "csv_file \<Rightarrow> dictrow list" where
  "DictReader content =
     (case content of
        [] \<Rightarrow> []
      | fieldnames # rows \<Rightarrow> map (DictReader_next fieldnames) (filter (\<lambda>r. r \<noteq> []) rows))"

text \<open>The inner loop (lines 21 to 24): \<^verbatim>\<open>row['postal_code']\<close> raises \<^verbatim>\<open>KeyError\<close> when
  the key is absent.\<close>

fun search_rows :: "string \<Rightarrow> dictrow list \<Rightarrow> dictrow list \<Rightarrow> error + dictrow list" where
  "search_rows postal_code [] results = Inr results"
| "search_rows postal_code (d # ds) results =
     (case map_of d (Some ''postal_code'') of
        None \<Rightarrow> Inl KeyError
      | Some v \<Rightarrow>
          search_rows postal_code ds (if v = Str postal_code then results @ [d] else results))"

text \<open>The outer loop (lines 14 to 24) over the directory listing: the entries in the
  order of \<^verbatim>\<open>os.listdir\<close>, each a file name with the parsed content of the file.\<close>

fun search_files :: "string \<Rightarrow> (string \<times> csv_file) list \<Rightarrow> dictrow list \<Rightarrow> error + dictrow list" where
  "search_files postal_code [] results = Inr results"
| "search_files postal_code ((filename, content) # rest) results =
     (if endswith filename ''.csv''
      then case search_rows postal_code (DictReader content) results of
             Inl e \<Rightarrow> Inl e
           | Inr results' \<Rightarrow> search_files postal_code rest results'
      else search_files postal_code rest results)"

definition search_csv_files :: "(string \<times> csv_file) list \<Rightarrow> string \<Rightarrow> error + dictrow list" where
  "search_csv_files directory postal_code = search_files postal_code directory []"

text \<open>A file has a column when its header row names it; the records of a file that
  match a postal code.\<close>

definition has_column :: "csv_file \<Rightarrow> string \<Rightarrow> bool" where
  "has_column content c = (case content of [] \<Rightarrow> False | fieldnames # rows \<Rightarrow> c \<in> set fieldnames)"

definition matching_records :: "string \<Rightarrow> csv_file \<Rightarrow> dictrow list" where
  "matching_records postal_code content =
     filter (\<lambda>d. map_of d (Some ''postal_code'') = Some (Str postal_code)) (DictReader content)"

section \<open>The splitter reaches the closed form\<close>


















text \<open>The example of the specification, run through the definitions: a header and five
  data rows with \<open>max_lines = 2\<close> give three files of two, two and one data rows.\<close>

lemma split_csv_example_run:
  "split_csv Map.empty
     [[''id'', ''name''], [''1'', ''a''], [''2'', ''b''], [''3'', ''c''], [''4'', ''d''], [''5'', ''e'']] 2
   = Inr \<lparr>file_count = 3, current_line_count = 1, current_file = Some 3,
          folder = [1 \<mapsto> [[''id'', ''name''], [''1'', ''a''], [''2'', ''b'']],
                    2 \<mapsto> [[''id'', ''name''], [''3'', ''c''], [''4'', ''d'']],
                    3 \<mapsto> [[''id'', ''name''], [''5'', ''e'']]]\<rparr>"
  by (simp add: split_csv_def split_step_def open_next_def writerow_def Let_def
      numeral_2_eq_2 numeral_3_eq_3)

section \<open>Claims about the splitter\<close>





text \<open>
  C9. For an empty source file (no header row to read), the splitter fails: reading the
  header raises \<^verbatim>\<open>StopIteration\<close>, before any output file is opened.
\<close>

theorem split_csv_empty_source_fails:
  "split_csv fs0 [] max_lines = Inl StopIteration"
  by (simp add: split_csv_def)

text \<open>
  C10. For a source of exactly a header row and no data row, the splitter returns
  normally and creates no output file: no file is counted, none is open, and the output
  folder holds what it held before.
\<close>

theorem split_csv_header_only:
  "split_csv fs0 [headers] max_lines
     = Inr \<lparr>file_count = 0, current_line_count = 0, current_file = None, folder = fs0\<rparr>"
  by (simp add: split_csv_def)

section \<open>The deduplicator writes the first occurrences\<close>

lemma dedup_loop_result:
  assumes "fs tmp = Some cur"
  shows "dedup_loop tmp rows (seen, fs)
           = (seen \<union> canonical_key ` set rows, fs(tmp \<mapsto> cur @ unseen_rows seen rows))"
  using assms
proof (induction rows arbitrary: seen fs cur)
  case Nil
  then show ?case by (simp add: fun_upd_idem)
next
  case (Cons r rows)
  show ?case
  proof (cases "join '','' r \<in> seen")
    case True
    then have "dedup_step tmp (seen, fs) r = (seen, fs)"
      by (simp add: dedup_step_def)
    with True Cons show ?thesis
      by (auto simp: canonical_key_def)
  next
    case False
    then have step: "dedup_step tmp (seen, fs) r
        = (insert (join '','' r) seen, fs(tmp \<mapsto> cur @ [r]))"
      using Cons.prems by (simp add: dedup_step_def writerow_def)
    have "dedup_loop tmp rows (insert (join '','' r) seen, fs(tmp \<mapsto> cur @ [r]))
        = (insert (join '','' r) seen \<union> canonical_key ` set rows,
           (fs(tmp \<mapsto> cur @ [r]))(tmp \<mapsto> (cur @ [r]) @ unseen_rows (insert (join '','' r) seen) rows))"
      by (rule Cons.IH) simp
    with step False show ?thesis
      by (auto simp: canonical_key_def)
  qed
qed

lemma tmp_neq: "file_path @ ''.tmp'' \<noteq> file_path"
  by simp

lemma remove_duplicates_result:
  assumes "fs file_path = Some rows"
  shows "remove_duplicates fs file_path
           = Inr ((fs(file_path \<mapsto> unseen_rows {} rows))(file_path @ ''.tmp'' := None))"
proof -
  let ?tmp = "file_path @ ''.tmp''"
  have "dedup_loop ?tmp rows ({}, fs(?tmp \<mapsto> []))
      = ({} \<union> canonical_key ` set rows, (fs(?tmp \<mapsto> []))(?tmp \<mapsto> [] @ unseen_rows {} rows))"
    by (rule dedup_loop_result) simp
  then have loop: "dedup_loop ?tmp rows ({}, fs(?tmp \<mapsto> []))
      = (canonical_key ` set rows, fs(?tmp \<mapsto> unseen_rows {} rows))"
    by simp
  show ?thesis
    using assms by (simp add: remove_duplicates_def loop os_replace_def fun_upd_twist)
qed

lemma unseen_rows_index:
  "unseen_rows seen rows =
     map (\<lambda>i. rows ! i)
       (filter (\<lambda>i. canonical_key (rows ! i) \<notin> seen \<union> canonical_key ` set (take i rows))
          [0..<length rows])"
proof (induction rows arbitrary: seen)
  case Nil
  show ?case by simp
next
  case (Cons r rows)
  have upt: "[0..<length (r # rows)] = 0 # map Suc [0..<length rows]"
    by (simp add: upt_conv_Cons map_Suc_upt del: upt_Suc)
  show ?case
  proof (cases "join '','' r \<in> seen")
    case True
    then have eq: "seen \<union> insert (canonical_key r) X = seen \<union> X" for X
      by (auto simp: canonical_key_def)
    from True show ?thesis
      unfolding upt
      by (auto simp: Cons.IH[of seen] filter_map o_def eq canonical_key_def[symmetric]
          intro!: arg_cong[where f="map ((!) rows)"] filter_cong)
  next
    case False
    have eq: "seen \<union> insert (canonical_key r) X = insert (canonical_key r) seen \<union> X" for X
      by auto
    from False show ?thesis
      unfolding upt
      by (auto simp: Cons.IH[of "insert (canonical_key r) seen"] filter_map o_def eq
          canonical_key_def[symmetric]
          intro!: arg_cong[where f="map ((!) rows)"] filter_cong)
  qed
qed

lemma unseen_rows_first_occurrences:
  "unseen_rows {} rows = first_occurrence_rows rows"
proof -
  have "is_first_occurrence rows =
          (\<lambda>i. canonical_key (rows ! i) \<notin> {} \<union> canonical_key ` set (take i rows))"
    by (simp add: fun_eq_iff is_first_occurrence_def)
  then show ?thesis
    by (simp only: unseen_rows_index first_occurrence_rows_def)
qed

lemma keys_unseen_rows:
  "canonical_key ` set (unseen_rows seen rows) = canonical_key ` set rows - seen"
  by (induction rows arbitrary: seen) (auto simp: canonical_key_def)

lemma distinct_unseen_rows:
  "distinct (map canonical_key (unseen_rows seen rows))"
proof (induction rows arbitrary: seen)
  case Nil
  show ?case by simp
next
  case (Cons r rows)
  have "canonical_key r \<notin> canonical_key ` set (unseen_rows (insert (canonical_key r) seen) rows)"
    by (simp add: keys_unseen_rows)
  with Cons show ?case
    by (simp add: canonical_key_def)
qed

lemma length_unseen_rows:
  "length (unseen_rows {} rows) = card (canonical_key ` set rows)"
proof -
  have "length (unseen_rows {} rows) = length (map canonical_key (unseen_rows {} rows))"
    by simp
  also have "\<dots> = card (set (map canonical_key (unseen_rows {} rows)))"
    by (rule distinct_card[symmetric]) (rule distinct_unseen_rows)
  also have "\<dots> = card (canonical_key ` set rows)"
    by (simp add: keys_unseen_rows)
  finally show ?thesis .
qed

lemma subseq_unseen_rows:
  "subseq (unseen_rows seen rows) rows"
  by (induction rows arbitrary: seen) auto

lemma unseen_rows_distinct_id:
  assumes "distinct (map canonical_key xs)" "canonical_key ` set xs \<inter> seen = {}"
  shows "unseen_rows seen xs = xs"
  using assms
proof (induction xs arbitrary: seen)
  case Nil
  show ?case by simp
next
  case (Cons x xs)
  from Cons.prems have a: "join '','' x \<notin> seen"
    by (auto simp: canonical_key_def)
  from Cons.prems have b: "canonical_key ` set xs \<inter> insert (join '','' x) seen = {}"
    by (auto simp: canonical_key_def)
  from Cons.prems have c: "distinct (map canonical_key xs)" by simp
  from a Cons.IH[OF c b] show ?case by simp
qed

lemma unseen_rows_idem:
  "unseen_rows {} (unseen_rows {} rows) = unseen_rows {} rows"
  by (rule unseen_rows_distinct_id) (simp_all add: distinct_unseen_rows)

lemma dedup_step_other:
  assumes "p \<noteq> tmp"
  shows "snd (dedup_step tmp st r) p = snd st p"
  using assms by (simp add: dedup_step_def writerow_def Let_def)

lemma dedup_trace_other:
  assumes "p \<noteq> tmp"
  shows "\<forall>s\<in>set (dedup_trace tmp rows st). snd s p = snd st p"
proof (induction rows arbitrary: st)
  case Nil
  show ?case by simp
next
  case (Cons r rows)
  from Cons.IH[of "dedup_step tmp st r"] dedup_step_other[OF assms, of st r]
  show ?case by simp
qed

lemma dedup_trace_nonempty: "dedup_trace tmp rows st \<noteq> []"
  by (cases rows) simp_all

lemma last_dedup_trace:
  "last (dedup_trace tmp rows st) = dedup_loop tmp rows st"
  by (induction rows arbitrary: st) (simp_all add: dedup_trace_nonempty)

section \<open>Claims about the deduplicator\<close>

text \<open>
  C3. For every input row sequence, the file the deduplicator leaves at \<open>file_path\<close> holds
  exactly the rows that are the first occurrence of their canonical text key (the fields
  rejoined with the delimiter), in input order: it is a subsequence of the input, its
  length is the number of distinct canonical keys of the input, no key occurs twice in
  it and every key of the input occurs in it, so only repeats of a key are dropped.
\<close>

theorem remove_duplicates_first_occurrences:
  assumes "fs file_path = Some rows"
  shows "\<exists>fs' out. remove_duplicates fs file_path = Inr fs'
           \<and> fs' file_path = Some out
           \<and> out = first_occurrence_rows rows
           \<and> length out = card (canonical_key ` set rows)
           \<and> subseq out rows
           \<and> distinct (map canonical_key out)
           \<and> canonical_key ` set out = canonical_key ` set rows"
proof -
  let ?out = "unseen_rows {} rows"
  let ?fs' = "(fs(file_path \<mapsto> ?out))(file_path @ ''.tmp'' := None)"
  have run: "remove_duplicates fs file_path = Inr ?fs'"
    using remove_duplicates_result[of fs file_path rows] assms by simp
  have out: "?fs' file_path = Some ?out" by simp
  have spec: "?out = first_occurrence_rows rows"
    by (rule unseen_rows_first_occurrences)
  have len: "length ?out = card (canonical_key ` set rows)"
    by (rule length_unseen_rows)
  have sub: "subseq ?out rows" by (rule subseq_unseen_rows)
  have dist: "distinct (map canonical_key ?out)" by (rule distinct_unseen_rows)
  have keys: "canonical_key ` set ?out = canonical_key ` set rows"
    by (simp add: keys_unseen_rows)
  from run out spec len sub dist keys show ?thesis by blast
qed

text \<open>The example of the specification: rows \<open>a,1\<close>, \<open>b,2\<close>, \<open>a,1\<close>, \<open>c,3\<close>.\<close>

lemma first_occurrence_rows_example:
  "first_occurrence_rows [[''a'', ''1''], [''b'', ''2''], [''a'', ''1''], [''c'', ''3'']]
     = [[''a'', ''1''], [''b'', ''2''], [''c'', ''3'']]"
  by (simp add: first_occurrence_rows_def is_first_occurrence_def canonical_key_def
      upt_conv_Cons nth_Cons')

theorem remove_duplicates_first_occurrences_witness:
  "[''data.csv'' \<mapsto> [[''a'', ''1''], [''b'', ''2''], [''a'', ''1''], [''c'', ''3'']]] ''data.csv''
     = Some [[''a'', ''1''], [''b'', ''2''], [''a'', ''1''], [''c'', ''3'']]
   \<and> (\<exists>fs'. remove_duplicates
               [''data.csv'' \<mapsto> [[''a'', ''1''], [''b'', ''2''], [''a'', ''1''], [''c'', ''3'']]]
               ''data.csv'' = Inr fs'
          \<and> fs' ''data.csv'' = Some [[''a'', ''1''], [''b'', ''2''], [''c'', ''3'']])"
  using remove_duplicates_first_occurrences
    [of "[''data.csv'' \<mapsto> [[''a'', ''1''], [''b'', ''2''], [''a'', ''1''], [''c'', ''3'']]]"
        "''data.csv''" "[[''a'', ''1''], [''b'', ''2''], [''a'', ''1''], [''c'', ''3'']]"]
  by (auto simp: first_occurrence_rows_example)

text \<open>
  C4. The deduplicator is idempotent: when a run succeeds, a second run on the file
  system it leaves succeeds too and leaves that file system unchanged.
\<close>

theorem remove_duplicates_idempotent:
  assumes "remove_duplicates fs file_path = Inr fs'"
  shows "remove_duplicates fs' file_path = Inr fs'"
proof -
  from assms obtain rows where rows: "fs file_path = Some rows"
    by (cases "fs file_path") (simp_all add: remove_duplicates_def)
  let ?out = "unseen_rows {} rows"
  from assms rows have fs': "fs' = (fs(file_path \<mapsto> ?out))(file_path @ ''.tmp'' := None)"
    by (simp add: remove_duplicates_result)
  then have here: "fs' file_path = Some ?out" and tmp: "fs' (file_path @ ''.tmp'') = None"
    by simp_all
  have "remove_duplicates fs' file_path
          = Inr ((fs'(file_path \<mapsto> unseen_rows {} ?out))(file_path @ ''.tmp'' := None))"
    using remove_duplicates_result[of fs' file_path ?out] here by simp
  also have "(fs'(file_path \<mapsto> unseen_rows {} ?out)) = fs'"
    using here by (simp add: unseen_rows_idem fun_upd_idem)
  also have "fs'(file_path @ ''.tmp'' := None) = fs'"
    using tmp by (simp add: fun_upd_idem)
  finally show ?thesis .
qed

theorem remove_duplicates_idempotent_witness:
  "remove_duplicates
     [''data.csv'' \<mapsto> [[''a'', ''1''], [''b'', ''2''], [''a'', ''1''], [''c'', ''3'']]] ''data.csv''
     = Inr (([''data.csv'' \<mapsto> [[''a'', ''1''], [''b'', ''2''], [''a'', ''1''], [''c'', ''3'']]]
              (''data.csv'' \<mapsto> [[''a'', ''1''], [''b'', ''2''], [''c'', ''3'']]))
              (''data.csv'' @ ''.tmp'' := None))
   \<and> remove_duplicates
       (([''data.csv'' \<mapsto> [[''a'', ''1''], [''b'', ''2''], [''a'', ''1''], [''c'', ''3'']]]
              (''data.csv'' \<mapsto> [[''a'', ''1''], [''b'', ''2''], [''c'', ''3'']]))
              (''data.csv'' @ ''.tmp'' := None)) ''data.csv''
     = Inr (([''data.csv'' \<mapsto> [[''a'', ''1''], [''b'', ''2''], [''a'', ''1''], [''c'', ''3'']]]
              (''data.csv'' \<mapsto> [[''a'', ''1''], [''b'', ''2''], [''c'', ''3'']]))
              (''data.csv'' @ ''.tmp'' := None))"
proof -
  have first: "remove_duplicates
     [''data.csv'' \<mapsto> [[''a'', ''1''], [''b'', ''2''], [''a'', ''1''], [''c'', ''3'']]] ''data.csv''
     = Inr (([''data.csv'' \<mapsto> [[''a'', ''1''], [''b'', ''2''], [''a'', ''1''], [''c'', ''3'']]]
              (''data.csv'' \<mapsto> [[''a'', ''1''], [''b'', ''2''], [''c'', ''3'']]))
              (''data.csv'' @ ''.tmp'' := None))"
    by (simp add: remove_duplicates_def dedup_step_def writerow_def os_replace_def Let_def)
  from first remove_duplicates_idempotent[OF first] show ?thesis by (rule conjI)
qed

text \<open>
  C6. The deduplicator writes to the temporary path and replaces the original only at the
  end: in every file-system state of a run before the final \<^verbatim>\<open>os.replace\<close> the original
  file holds its original rows, and the result of the run is that single replace step
  applied to the last of these states.
\<close>

theorem remove_duplicates_original_intact_before_replace:
  assumes "fs file_path = Some rows"
  shows "(\<forall>s\<in>set (states_before_replace fs file_path). s file_path = Some rows)
         \<and> remove_duplicates fs file_path
             = os_replace (last (states_before_replace fs file_path))
                 (file_path @ ''.tmp'') file_path"
proof -
  let ?tmp = "file_path @ ''.tmp''"
  let ?st0 = "({}, fs(?tmp \<mapsto> [])) :: string set \<times> filesystem"
  have ne: "file_path \<noteq> ?tmp" by simp
  have "\<forall>s\<in>set (dedup_trace ?tmp rows ?st0). snd s file_path = snd ?st0 file_path"
    by (rule dedup_trace_other[OF ne])
  then have intact: "\<forall>s\<in>set (states_before_replace fs file_path). s file_path = Some rows"
    using assms by (auto simp: states_before_replace_def)
  have "last (states_before_replace fs file_path) = snd (dedup_loop ?tmp rows ?st0)"
    using assms
    by (simp add: states_before_replace_def dedup_trace_nonempty last_map last_dedup_trace)
  then have final: "remove_duplicates fs file_path
      = os_replace (last (states_before_replace fs file_path)) ?tmp file_path"
    using assms by (simp add: remove_duplicates_def Let_def)
  from intact final show ?thesis by blast
qed

theorem remove_duplicates_original_intact_before_replace_witness:
  "[''data.csv'' \<mapsto> [[''a'', ''1''], [''b'', ''2''], [''a'', ''1'']]] ''data.csv''
     = Some [[''a'', ''1''], [''b'', ''2''], [''a'', ''1'']]
   \<and> list_all (\<lambda>s. s ''data.csv'' = Some [[''a'', ''1''], [''b'', ''2''], [''a'', ''1'']])
        (states_before_replace
           [''data.csv'' \<mapsto> [[''a'', ''1''], [''b'', ''2''], [''a'', ''1'']]] ''data.csv'')
   \<and> length (states_before_replace
                [''data.csv'' \<mapsto> [[''a'', ''1''], [''b'', ''2''], [''a'', ''1'']]] ''data.csv'') = 5"
  using remove_duplicates_original_intact_before_replace
    [of "[''data.csv'' \<mapsto> [[''a'', ''1''], [''b'', ''2''], [''a'', ''1'']]]" "''data.csv''"
        "[[''a'', ''1''], [''b'', ''2''], [''a'', ''1'']]"]
  by (simp add: states_before_replace_def list_all_iff)

text \<open>
  C7. There are two different rows whose fields rejoin to the same comma-joined string,
  and the deduplicator drops the second as a duplicate of the first: \<open>["a,b", "c"]\<close> and
  \<open>["a", "b,c"]\<close> both give \<open>a,b,c\<close>.
\<close>

theorem delimiter_collision_drops_distinct_row:
  "\<exists>r1 r2 fs'. r1 \<noteq> r2 \<and> join '','' r1 = join '','' r2
      \<and> remove_duplicates [''f.csv'' \<mapsto> [r1, r2]] ''f.csv'' = Inr fs'
      \<and> fs' ''f.csv'' = Some [r1]"
proof -
  let ?r1 = "[''a,b'', ''c'']" and ?r2 = "[''a'', ''b,c'']"
  have "?r1 \<noteq> ?r2" by simp
  moreover have "join '','' ?r1 = join '','' ?r2" by simp
  moreover have "remove_duplicates [''f.csv'' \<mapsto> [?r1, ?r2]] ''f.csv''
      = Inr (([''f.csv'' \<mapsto> [?r1, ?r2]](''f.csv'' \<mapsto> [?r1]))(''f.csv'' @ ''.tmp'' := None))"
    by (simp add: remove_duplicates_def dedup_step_def writerow_def os_replace_def Let_def)
  ultimately show ?thesis by (intro exI[of _ ?r1] exI[of _ ?r2] exI) auto
qed

section \<open>The searcher: keys of the records and the two loops\<close>

lemma dom_fold_update:
  "dom (map_of (fold (\<lambda>x. AList.update (kf x) (vf x)) xs d)) = dom (map_of d) \<union> kf ` set xs"
  by (induction xs arbitrary: d) (auto simp: update_conv')

lemma dom_dict_zip:
  "dom (map_of (dict_zip fieldnames r)) = Some ` set (take (length r) fieldnames)"
proof -
  have "dom (map_of (dict_zip fieldnames r)) = (\<lambda>kv. Some (fst kv)) ` set (zip fieldnames r)"
    unfolding dict_zip_def by (simp add: dom_fold_update)
  also have "\<dots> = Some ` fst ` set (zip fieldnames r)"
    by (simp add: image_image)
  also have "fst ` set (zip fieldnames r) = set (map fst (zip fieldnames r))"
    by simp
  also have "map fst (zip fieldnames r) = take (length r) fieldnames"
    by (simp add: map_fst_zip_take min_def)
  finally show ?thesis .
qed

lemma dom_DictReader_next:
  "dom (map_of (DictReader_next fieldnames r))
     = Some ` set fieldnames \<union> (if length fieldnames < length r then {None} else {})"
proof -
  let ?d = "dict_zip fieldnames r"
  have u: "set (take (length r) fieldnames) \<union> set (drop (length r) fieldnames) = set fieldnames"
    by (simp only: set_append[symmetric] append_take_drop_id)
  consider (longer) "length fieldnames < length r"
    | (shorter) "length r < length fieldnames"
    | (same) "length fieldnames = length r"
    by linarith
  then show ?thesis
  proof cases
    case longer
    then have "DictReader_next fieldnames r = AList.update None (Rest (drop (length fieldnames) r)) ?d"
      by (simp add: DictReader_next_def Let_def)
    then have "dom (map_of (DictReader_next fieldnames r)) = insert None (dom (map_of ?d))"
      by (simp add: update_conv')
    also have "dom (map_of ?d) = Some ` set fieldnames"
      using longer by (simp add: dom_dict_zip)
    finally show ?thesis using longer by simp
  next
    case shorter
    then have "DictReader_next fieldnames r
        = fold (\<lambda>key. AList.update (Some key) NoneVal) (drop (length r) fieldnames) ?d"
      by (simp add: DictReader_next_def Let_def)
    then have "dom (map_of (DictReader_next fieldnames r))
        = dom (map_of ?d) \<union> Some ` set (drop (length r) fieldnames)"
      by (simp only: dom_fold_update)
    also have "\<dots> = Some ` (set (take (length r) fieldnames) \<union> set (drop (length r) fieldnames))"
      by (simp only: dom_dict_zip image_Un)
    also have "\<dots> = Some ` set fieldnames"
      by (simp only: u)
    finally show ?thesis using shorter by simp
  next
    case same
    then have "DictReader_next fieldnames r = ?d"
      by (simp add: DictReader_next_def Let_def)
    then have "dom (map_of (DictReader_next fieldnames r)) = Some ` set fieldnames"
      using same by (simp add: dom_dict_zip)
    then show ?thesis using same by simp
  qed
qed

lemma has_key_iff:
  "(map_of (DictReader_next fieldnames r) (Some c) \<noteq> None) = (c \<in> set fieldnames)"
proof -
  have "(Some c \<in> dom (map_of (DictReader_next fieldnames r))) = (c \<in> set fieldnames)"
    by (auto simp: dom_DictReader_next)
  then show ?thesis by (simp add: dom_def)
qed

lemma search_rows_ok:
  assumes "\<forall>d\<in>set ds. map_of d (Some ''postal_code'') \<noteq> None"
  shows "search_rows target ds results
           = Inr (results @ filter (\<lambda>d. map_of d (Some ''postal_code'') = Some (Str target)) ds)"
  using assms
proof (induction ds arbitrary: results)
  case Nil
  show ?case by simp
next
  case (Cons d ds)
  from Cons.prems obtain v where v: "map_of d (Some ''postal_code'') = Some v"
    by auto
  from Cons.prems have rest: "\<forall>d\<in>set ds. map_of d (Some ''postal_code'') \<noteq> None"
    by simp
  show ?case
    using v Cons.IH[OF rest] by simp
qed

lemma search_rows_error:
  "search_rows target ds results = Inl e \<Longrightarrow> e = KeyError"
  by (induction ds arbitrary: results) (auto split: option.splits)

lemma search_rows_missing_key:
  assumes "\<exists>d\<in>set ds. map_of d (Some ''postal_code'') = None"
  shows "search_rows target ds results = Inl KeyError"
  using assms
proof (induction ds arbitrary: results)
  case Nil
  then show ?case by simp
next
  case (Cons d ds)
  show ?case
  proof (cases "map_of d (Some ''postal_code'')")
    case None
    then show ?thesis by simp
  next
    case (Some v)
    with Cons.prems have "\<exists>d\<in>set ds. map_of d (Some ''postal_code'') = None"
      by auto
    from Cons.IH[OF this] Some show ?thesis by simp
  qed
qed

lemma DictReader_has_key:
  assumes "has_column content c"
  shows "\<forall>d\<in>set (DictReader content). map_of d (Some c) \<noteq> None"
  using assms
  by (cases content) (auto simp: has_column_def DictReader_def has_key_iff simp del: not_None_eq)

lemma search_files_ok:
  assumes "\<forall>(filename, content)\<in>set directory.
             endswith filename ''.csv'' \<longrightarrow> has_column content ''postal_code''"
  shows "search_files target directory results
           = Inr (results @ concat (map (\<lambda>(filename, content). matching_records target content)
                    (filter (\<lambda>(filename, content). endswith filename ''.csv'') directory)))"
  using assms
proof (induction directory arbitrary: results)
  case Nil
  show ?case by simp
next
  case (Cons entry directory)
  obtain filename content where entry: "entry = (filename, content)"
    by (cases entry)
  from Cons.prems have rest: "\<forall>(filename, content)\<in>set directory.
      endswith filename ''.csv'' \<longrightarrow> has_column content ''postal_code''"
    by simp
  show ?case
  proof (cases "endswith filename ''.csv''")
    case True
    with Cons.prems entry have "has_column content ''postal_code''" by simp
    then have "search_rows target (DictReader content) results
        = Inr (results @ matching_records target content)"
      unfolding matching_records_def
      by (intro search_rows_ok DictReader_has_key)
    with True entry Cons.IH[OF rest] show ?thesis by simp
  next
    case False
    with entry Cons.IH[OF rest] show ?thesis by simp
  qed
qed

lemma search_files_missing_column:
  assumes "(filename, fieldnames # rows) \<in> set directory" "endswith filename ''.csv''"
    "''postal_code'' \<notin> set fieldnames" "\<exists>r\<in>set rows. r \<noteq> []"
  shows "search_files target directory results = Inl KeyError"
  using assms(1)
proof (induction directory arbitrary: results)
  case Nil
  then show ?case by simp
next
  case (Cons entry directory)
  obtain fn content where entry: "entry = (fn, content)"
    by (cases entry)
  show ?case
  proof (cases "entry = (filename, fieldnames # rows)")
    case True
    from assms(4) obtain r where r: "r \<in> set rows" "r \<noteq> []" by auto
    have "map_of (DictReader_next fieldnames r) (Some ''postal_code'') = None"
      using has_key_iff[of fieldnames r "''postal_code''"] assms(3) by simp
    with r have "\<exists>d\<in>set (DictReader (fieldnames # rows)). map_of d (Some ''postal_code'') = None"
      by (auto simp: DictReader_def)
    then have "search_rows target (DictReader (fieldnames # rows)) results = Inl KeyError"
      by (rule search_rows_missing_key)
    with True assms(2) show ?thesis by simp
  next
    case False
    with Cons.prems have inrest: "(filename, fieldnames # rows) \<in> set directory" by simp
    show ?thesis
    proof (cases "endswith fn ''.csv''")
      case csv: True
      show ?thesis
      proof (cases "search_rows target (DictReader content) results")
        case (Inl e)
        then have "e = KeyError" by (rule search_rows_error)
        with Inl csv entry show ?thesis by simp
      next
        case (Inr results')
        with csv entry Cons.IH[OF inrest] show ?thesis by simp
      qed
    next
      case nocsv: False
      with entry Cons.IH[OF inrest] show ?thesis by simp
    qed
  qed
qed

text \<open>A run through the definitions: a blank row is skipped, a row shorter than the
  header is kept (its missing fields are \<^verbatim>\<open>None\<close>), the surplus fields of a longer row go
  under the rest key.\<close>

lemma search_csv_files_example_run:
  "search_csv_files
     [(''a.csv'', [[''postal_code'', ''city''], [''6369CW'', ''Simpelveld''], [], [''1234AB'']]),
      (''b.csv'', [[''postal_code''], [''6369CW'', ''extra'', ''more'']])]
     ''6369CW''
   = Inr [[(Some ''postal_code'', Str ''6369CW''), (Some ''city'', Str ''Simpelveld'')],
          [(Some ''postal_code'', Str ''6369CW''), (None, Rest [''extra'', ''more''])]]"
  by (simp add: search_csv_files_def endswith_def DictReader_def DictReader_next_def
      dict_zip_def Let_def)

section \<open>Claims about the searcher\<close>

text \<open>
  C5. For every directory listing in which each file whose name ends in \<^verbatim>\<open>.csv\<close> has a
  \<^verbatim>\<open>postal_code\<close> column, and every target string, the searcher returns exactly the records
  of those files whose \<^verbatim>\<open>postal_code\<close> field is equal to the target as a string (no
  normalisation, so \<open>6369CW\<close> does not match \<open>6369cw\<close>), in listing order and then in row
  order; an empty listing, or no match, gives the empty result.
\<close>

theorem search_csv_files_exact_matches:
  assumes "\<forall>(filename, content)\<in>set directory.
             endswith filename ''.csv'' \<longrightarrow> has_column content ''postal_code''"
  shows "search_csv_files directory target
           = Inr (concat (map (\<lambda>(filename, content). matching_records target content)
                    (filter (\<lambda>(filename, content). endswith filename ''.csv'') directory)))"
  using search_files_ok[OF assms, of target "[]"] by (simp add: search_csv_files_def)

theorem search_csv_files_exact_matches_witness:
  "has_column [[''postal_code'', ''city''], [''6369CW'', ''Simpelveld''], [''6369cw'', ''Heerlen'']]
     ''postal_code''
   \<and> has_column [[''city'', ''postal_code''], [''Utrecht'', ''3511AB'']] ''postal_code''
   \<and> \<not> endswith ''notes.txt'' ''.csv''
   \<and> search_csv_files
       [(''a.csv'', [[''postal_code'', ''city''], [''6369CW'', ''Simpelveld''], [''6369cw'', ''Heerlen'']]),
        (''notes.txt'', [[''anything'']]),
        (''b.csv'', [[''city'', ''postal_code''], [''Utrecht'', ''3511AB'']])]
       ''6369CW''
     = Inr [[(Some ''postal_code'', Str ''6369CW''), (Some ''city'', Str ''Simpelveld'')]]"
  using search_csv_files_exact_matches
    [of "[(''a.csv'', [[''postal_code'', ''city''], [''6369CW'', ''Simpelveld''], [''6369cw'', ''Heerlen'']]),
          (''notes.txt'', [[''anything'']]),
          (''b.csv'', [[''city'', ''postal_code''], [''Utrecht'', ''3511AB'']])]" "''6369CW''"]
  by (simp add: has_column_def endswith_def matching_records_def DictReader_def
      DictReader_next_def dict_zip_def Let_def)

text \<open>
  As stated, C8 says that the searcher fails for every directory that contains a CSV
  file without a \<^verbatim>\<open>postal_code\<close> column. The lookup \<^verbatim>\<open>row['postal_code']\<close> runs once per
  record, so a file without the column and without data rows raises nothing: here the
  searcher returns the empty result.
\<close>

theorem search_csv_files_missing_column_counterexample:
  "\<not> has_column [[''city'']] ''postal_code'' \<and> endswith ''a.csv'' ''.csv''
   \<and> search_csv_files [(''a.csv'', [[''city'']])] ''6369CW'' = Inr []"
  by (simp add: has_column_def endswith_def search_csv_files_def DictReader_def)

text \<open>
  C8, amended. For every directory listing that contains a file whose name ends in
  \<^verbatim>\<open>.csv\<close>, whose header row lacks \<^verbatim>\<open>postal_code\<close> and which has at least one non-blank
  data row, the searcher fails with \<^verbatim>\<open>KeyError\<close>, whatever the other files hold.
\<close>

theorem search_csv_files_missing_column_fails:
  assumes "(filename, fieldnames # rows) \<in> set directory" "endswith filename ''.csv''"
    "''postal_code'' \<notin> set fieldnames" "\<exists>r\<in>set rows. r \<noteq> []"
  shows "search_csv_files directory target = Inl KeyError"
  using search_files_missing_column[OF assms] by (simp add: search_csv_files_def)

theorem search_csv_files_missing_column_fails_witness:
  "(''a.csv'', [''city''] # [[''Utrecht'']]) \<in> set [(''a.csv'', [[''city''], [''Utrecht'']])]
   \<and> endswith ''a.csv'' ''.csv''
   \<and> ''postal_code'' \<notin> set [''city'']
   \<and> [''Utrecht''] \<noteq> []
   \<and> search_csv_files [(''a.csv'', [[''city''], [''Utrecht'']])] ''6369CW'' = Inl KeyError"
  using search_csv_files_missing_column_fails
    [of "''a.csv''" "[''city'']" "[[''Utrecht'']]" "[(''a.csv'', [[''city''], [''Utrecht'']])]" "''6369CW''"]
  by (simp add: endswith_def)

end
